theory Spec2Isabelle
  imports Main "HOL-Library.Sublist"
begin

section \<open>Strings\<close>

text \<open>
  A Go string is a sequence of bytes; it is modelled as a \<^typ>\<open>string\<close>, a list of 8-bit
  characters. The regular expression of \<open>parseCommandLine\<close> mentions ASCII characters only
  (\<open>-\<close>, \<open>=\<close>, space, the two quotes and the class \<open>\w\<close>, which in Go is
  \<open>[0-9A-Za-z_]\<close>), and every byte of a multi-byte UTF-8 sequence is above 127, so matching
  byte by byte consumes the same spans as matching rune by rune.
\<close>

abbreviation dquote :: char where "dquote \<equiv> CHR 0x22"
abbreviation squote :: char where "squote \<equiv> CHR 0x27"

text \<open>\<open>strings.Trim(s, cutset)\<close>: \<open>s\<close> without its leading and trailing characters that
  occur in \<open>cutset\<close>.\<close>

definition Trim :: "string \<Rightarrow> string \<Rightarrow> string" where
  "Trim s cutset =
     rev (dropWhile (\<lambda>c. c \<in> set cutset) (rev (dropWhile (\<lambda>c. c \<in> set cutset) s)))"

text \<open>\<open>strings.Join(elems, sep)\<close>.\<close>

fun Join :: "string list \<Rightarrow> string \<Rightarrow> string" where
  "Join [] sep = []"
| "Join [x] sep = x"
| "Join (x # y # ys) sep = x @ sep @ Join (y # ys) sep"

text \<open>The width that \<open>utf8.DecodeRuneInString\<close> gives for a string that is not empty:
  the length of the UTF-8 sequence at its start, and 1 for a byte that starts no valid
  sequence.\<close>

definition runeWidth :: "string \<Rightarrow> nat" where
  "runeWidth s =
     (let b0 = (of_char (s ! 0) :: nat);
          sz = (if 0xC2 \<le> b0 \<and> b0 \<le> 0xDF then 2
                else if 0xE0 \<le> b0 \<and> b0 \<le> 0xEF then 3
                else if 0xF0 \<le> b0 \<and> b0 \<le> 0xF4 then 4
                else (1::nat));
          lo = (if b0 = 0xE0 then 0xA0 else if b0 = 0xF0 then 0x90 else (0x80::nat));
          hi = (if b0 = 0xED then 0x9F else if b0 = 0xF4 then 0x8F else (0xBF::nat))
      in if sz = 1 then 1
         else if length s < sz then 1
         else if (of_char (s ! 1) :: nat) < lo \<or> hi < (of_char (s ! 1) :: nat) then 1
         else if sz = 2 then 2
         else if (of_char (s ! 2) :: nat) < 0x80 \<or> 0xBF < (of_char (s ! 2) :: nat) then 1
         else if sz = 3 then 3
         else if (of_char (s ! 3) :: nat) < 0x80 \<or> 0xBF < (of_char (s ! 3) :: nat) then 1
         else 4)"

lemma runeWidth_positive: "0 < runeWidth s"
  by (simp add: runeWidth_def Let_def)

text \<open>\<open>new\<close> after every UTF-8 sequence of \<open>s\<close>.\<close>

function afterEveryRune :: "string \<Rightarrow> string \<Rightarrow> string" where
  "afterEveryRune s new =
     (if s = [] then []
      else take (runeWidth s) s @ new @ afterEveryRune (drop (runeWidth s) s) new)"
  by pat_completeness auto
termination
  by (relation "measure (\<lambda>(s, new). length s)") (auto simp: runeWidth_positive)

declare afterEveryRune.simps [simp del]

text \<open>\<open>strings.Replace(s, old, new, -1)\<close>: every non-overlapping occurrence of \<open>old\<close>,
  found from the left, is replaced by \<open>new\<close>. For an empty \<open>old\<close> Go inserts \<open>new\<close> in
  front of the string and after every UTF-8 sequence.\<close>

function Replace :: "string \<Rightarrow> string \<Rightarrow> string \<Rightarrow> string" where
  "Replace s old new =
     (if old = [] then new @ afterEveryRune s new
      else if s = [] then []
      else if take (length old) s = old then new @ Replace (drop (length old) s) old new
      else hd s # Replace (tl s) old new)"
  by pat_completeness auto
termination
  by (relation "measure (\<lambda>(s, old, new). length s)") auto

declare Replace.simps [simp del]

section \<open>The argument tokenizer\<close>

text \<open>
  \<open>parseCommandLine\<close> finds all matches of the regular expression

  \<^verbatim>\<open>(--?\w+)([= ]("[^"]*"|'[^']*'|[^ ]+))?\<close>

  Go's \<open>regexp\<close> returns the leftmost match and, among the matches that start there,
  the one a backtracking search finds first: a greedy operator tries the longer
  alternative first, and the branches of \<open>|\<close> are tried in order. The functions below
  are that search, one function for each piece of the expression; every one of them
  returns the text matched together with the rest of the input.
\<close>

text \<open>\<open>\w\<close>\<close>

definition isWordChar :: "char \<Rightarrow> bool" where
  "isWordChar c =
     (c \<in> set ''0123456789ABCDEFGHIJKLMNOPQRSTUVWXYZ_abcdefghijklmnopqrstuvwxyz'')"

text \<open>\<open>\w+\<close>, greedy.\<close>

definition matchWord :: "string \<Rightarrow> (string \<times> string) option" where
  "matchWord s =
     (if takeWhile isWordChar s = [] then None
      else Some (takeWhile isWordChar s, dropWhile isWordChar s))"

text \<open>Group 1, \<open>(--?\w+)\<close>: the optional second \<open>-\<close> is taken first and given back when
  no word follows it.\<close>

definition matchFlagName :: "string \<Rightarrow> (string \<times> string) option" where
  "matchFlagName s =
     (case s of
        [] \<Rightarrow> None
      | c # t \<Rightarrow>
          if c \<noteq> CHR ''-'' then None
          else (case (case t of [] \<Rightarrow> None
                      | d # u \<Rightarrow> if d = CHR ''-'' then matchWord u else None) of
                  Some (w, r) \<Rightarrow> Some (CHR ''-'' # CHR ''-'' # w, r)
                | None \<Rightarrow>
                    (case matchWord t of
                       Some (w, r) \<Rightarrow> Some (CHR ''-'' # w, r)
                     | None \<Rightarrow> None)))"

text \<open>\<open>"[^"]*"\<close> and \<open>'[^']*'\<close>: an opening quote \<open>q\<close>, the characters up to the next
  \<open>q\<close>, and that \<open>q\<close>. Without a closing quote the branch fails.\<close>

definition matchQuoted :: "char \<Rightarrow> string \<Rightarrow> (string \<times> string) option" where
  "matchQuoted q s =
     (case s of
        [] \<Rightarrow> None
      | c # t \<Rightarrow>
          if c = q \<and> q \<in> set t
          then Some (q # takeWhile (\<lambda>x. x \<noteq> q) t @ [q], tl (dropWhile (\<lambda>x. x \<noteq> q) t))
          else None)"

text \<open>\<open>[^ ]+\<close>, greedy.\<close>

definition matchNonSpace :: "string \<Rightarrow> (string \<times> string) option" where
  "matchNonSpace s =
     (if takeWhile (\<lambda>x. x \<noteq> CHR '' '') s = [] then None
      else Some (takeWhile (\<lambda>x. x \<noteq> CHR '' '') s, dropWhile (\<lambda>x. x \<noteq> CHR '' '') s))"

text \<open>Group 3, \<open>("[^"]*"|'[^']*'|[^ ]+)\<close>: the three branches in order.\<close>

definition matchValue :: "string \<Rightarrow> (string \<times> string) option" where
  "matchValue s =
     (case matchQuoted dquote s of
        Some r \<Rightarrow> Some r
      | None \<Rightarrow>
          (case matchQuoted squote s of
             Some r \<Rightarrow> Some r
           | None \<Rightarrow> matchNonSpace s))"

text \<open>Group 2, \<open>([= ](...))?\<close>: the result is the text of group 2, the text of group 3
  and the rest; a group that does not take part in the match has the empty text.\<close>

definition matchOptValue :: "string \<Rightarrow> string \<times> string \<times> string" where
  "matchOptValue s =
     (case s of
        [] \<Rightarrow> ([], [], s)
      | c # t \<Rightarrow>
          if c = CHR ''='' \<or> c = CHR '' ''
          then (case matchValue t of
                  Some (v, r) \<Rightarrow> (c # v, v, r)
                | None \<Rightarrow> ([], [], s))
          else ([], [], s))"

text \<open>The whole expression at the start of \<open>s\<close>: the submatches
  \<open>[match[0], match[1], match[2], match[3]]\<close> and the rest of the input.\<close>

definition matchHere :: "string \<Rightarrow> (string list \<times> string) option" where
  "matchHere s =
     (case matchFlagName s of
        None \<Rightarrow> None
      | Some (f, r) \<Rightarrow>
          (case matchOptValue r of
             (g2, g3, r') \<Rightarrow> Some ([f @ g2, f, g2, g3], r')))"

lemma matchWord_shorter: "matchWord s = Some (w, r) \<Longrightarrow> length r \<le> length s"
  by (auto simp: matchWord_def length_dropWhile_le split: if_splits)

lemma matchFlagName_shorter: "matchFlagName s = Some (f, r) \<Longrightarrow> length r < length s"
  by (auto simp: matchFlagName_def split: list.splits if_splits option.splits
           dest!: matchWord_shorter)

lemma matchQuoted_shorter: "matchQuoted q s = Some (v, r) \<Longrightarrow> length r < length s"
  by (auto simp: matchQuoted_def less_Suc_eq_le
           intro: le_trans [OF diff_le_self length_dropWhile_le]
           split: list.splits if_splits)

lemma matchNonSpace_shorter: "matchNonSpace s = Some (v, r) \<Longrightarrow> length r \<le> length s"
  by (auto simp: matchNonSpace_def length_dropWhile_le split: if_splits)

lemma matchValue_shorter: "matchValue s = Some (v, r) \<Longrightarrow> length r \<le> length s"
  by (auto simp: matchValue_def split: option.splits
           dest: matchQuoted_shorter matchNonSpace_shorter)

lemma matchOptValue_shorter: "matchOptValue s = (g2, g3, r) \<Longrightarrow> length r \<le> length s"
  by (auto simp: matchOptValue_def split: list.splits if_splits option.splits
           dest!: matchValue_shorter)

lemma matchHere_shorter: "matchHere s = Some (m, r) \<Longrightarrow> length r < length s"
  by (auto simp: matchHere_def split: option.splits prod.splits
           dest!: matchFlagName_shorter matchOptValue_shorter)

text \<open>\<open>re.FindAllStringSubmatch(argStr, -1)\<close>: the successive non-overlapping matches.
  A match of this expression is never empty, so the search for the next match starts
  where the last one ended; where nothing matches, it moves on by one character.\<close>

function FindAllStringSubmatch :: "string \<Rightarrow> string list list" where
  "FindAllStringSubmatch s =
     (if s = [] then []
      else (case matchHere s of
              Some (m, r) \<Rightarrow> m # FindAllStringSubmatch r
            | None \<Rightarrow> FindAllStringSubmatch (tl s)))"
  by pat_completeness auto
termination
  by (relation "measure length") (auto dest: matchHere_shorter)

declare FindAllStringSubmatch.simps [simp del]

text \<open>The body of the loop over the matches.\<close>

definition appendMatch :: "string list \<Rightarrow> string list \<Rightarrow> string list" where
  "appendMatch args match =
     (if match ! 3 \<noteq> []
      then (args @ [match ! 1]) @ [Trim (match ! 3) [dquote, squote]]
      else args @ [match ! 1])"

text \<open>The result is the pair of the token list and the error; the error is \<open>None\<close> for
  Go's \<open>nil\<close>.\<close>

definition parseCommandLine :: "string \<Rightarrow> string list \<times> string option" where
  "parseCommandLine argStr = (foldl appendMatch [] (FindAllStringSubmatch argStr), None)"

text \<open>
  The places that the search visits: \<open>scanTo s ts t\<close> says that the search through \<open>s\<close>
  comes to look for a match at the start of its suffix \<open>t\<close>, after the matches before
  \<open>t\<close> have given the tokens \<open>ts\<close>. The three rules are the three ways through the
  loop of \<open>FindAllStringSubmatch\<close>: stop, go on after a match, go on after a character
  at which nothing matches.
\<close>

inductive scanTo :: "string \<Rightarrow> string list \<Rightarrow> string \<Rightarrow> bool" where
  here: "scanTo s [] s"
| matched: "matchHere s = Some (m, r) \<Longrightarrow> scanTo r ts t \<Longrightarrow> scanTo s (appendMatch [] m @ ts) t"
| skipped: "s \<noteq> [] \<Longrightarrow> matchHere s = None \<Longrightarrow> scanTo (tl s) ts t \<Longrightarrow> scanTo s ts t"

section \<open>Flag resolution\<close>

text \<open>
  \<open>RunWarp\<close> resolves the tokens with a \<open>flag.FlagSet\<close> of Go's standard library.
  The set maps the name of each defined flag to its value; the variables \<open>verbose\<close>,
  \<open>bindAddress\<close>, ... point to these values. Only boolean and string flags are ever
  defined on the set that is parsed.
\<close>

datatype flagValue = BoolValue bool | StringValue string

record FlagSet =
  formal :: "string \<rightharpoonup> flagValue"
  args :: "string list"

datatype flagError =
    ErrHelp
  | BadSyntax string
  | NotDefined string
  | InvalidBoolean string string
  | NeedsArgument string

text \<open>\<open>strconv.ParseBool\<close>, which sets a boolean flag written \<open>-name=value\<close>.\<close>

definition ParseBool :: "string \<Rightarrow> bool option" where
  "ParseBool str =
     (if str \<in> set [''1'', ''t'', ''T'', ''TRUE'', ''true'', ''True''] then Some True
      else if str \<in> set [''0'', ''f'', ''F'', ''FALSE'', ''false'', ''False''] then Some False
      else None)"

text \<open>The loop of \<open>parseOne\<close> that looks for \<open>=\<close> from the second character of the
  name on: the result is the name, \<open>hasValue\<close> and the value.\<close>

definition splitValue :: "string \<Rightarrow> string \<times> bool \<times> string" where
  "splitValue name =
     (if CHR ''='' \<in> set (tl name)
      then (hd name # takeWhile (\<lambda>c. c \<noteq> CHR ''='') (tl name), True,
            tl (dropWhile (\<lambda>c. c \<noteq> CHR ''='') (tl name)))
      else (name, False, []))"

text \<open>\<open>FlagSet.parseOne\<close>: the result is \<open>(seen, error)\<close> and the updated set.\<close>

definition parseOne :: "FlagSet \<Rightarrow> (bool \<times> flagError option) \<times> FlagSet" where
  "parseOne f =
     (case args f of
        [] \<Rightarrow> ((False, None), f)
      | s # rest \<Rightarrow>
          if length s < 2 \<or> s ! 0 \<noteq> CHR ''-'' then ((False, None), f)
          else if s ! 1 = CHR ''-'' \<and> length s = 2 then ((False, None), f\<lparr>args := rest\<rparr>)
          else
            (let numMinuses = (if s ! 1 = CHR ''-'' then 2 else 1);
                 name0 = drop numMinuses s
             in if name0 = [] \<or> name0 ! 0 = CHR ''-'' \<or> name0 ! 0 = CHR ''=''
                then ((False, Some (BadSyntax s)), f)
                else
                  (case splitValue name0 of
                     (name, hasValue, value) \<Rightarrow>
                       (case formal f name of
                          None \<Rightarrow>
                            if name = ''help'' \<or> name = ''h''
                            then ((False, Some ErrHelp), f\<lparr>args := rest\<rparr>)
                            else ((False, Some (NotDefined name)), f\<lparr>args := rest\<rparr>)
                        | Some (BoolValue old) \<Rightarrow>
                            if hasValue
                            then (case ParseBool value of
                                    None \<Rightarrow>
                                      ((False, Some (InvalidBoolean value name)),
                                       f\<lparr>args := rest\<rparr>)
                                  | Some b \<Rightarrow>
                                      ((True, None),
                                       f\<lparr>formal := (formal f)(name \<mapsto> BoolValue b),
                                         args := rest\<rparr>))
                            else ((True, None),
                                  f\<lparr>formal := (formal f)(name \<mapsto> BoolValue True),
                                    args := rest\<rparr>)
                        | Some (StringValue old) \<Rightarrow>
                            if hasValue
                            then ((True, None),
                                  f\<lparr>formal := (formal f)(name \<mapsto> StringValue value),
                                    args := rest\<rparr>)
                            else (case rest of
                                    [] \<Rightarrow> ((False, Some (NeedsArgument name)), f\<lparr>args := rest\<rparr>)
                                  | v # rest' \<Rightarrow>
                                      ((True, None),
                                       f\<lparr>formal := (formal f)(name \<mapsto> StringValue v),
                                         args := rest'\<rparr>))))))"

lemma parseOne_seen:
  "parseOne f = ((True, err), f') \<Longrightarrow> length (args f') < length (args f)"
  by (auto simp: parseOne_def Let_def
           split: list.splits if_splits prod.splits option.splits flagValue.splits)

text \<open>The loop of \<open>FlagSet.Parse\<close>: it goes on while a flag was seen, and stops at the
  first argument that is not a flag (no error) or at the first error.\<close>

function parseLoop :: "FlagSet \<Rightarrow> flagError + FlagSet" where
  "parseLoop f =
     (case parseOne f of
        ((seen, err), f') \<Rightarrow>
          if seen then parseLoop f'
          else (case err of None \<Rightarrow> Inr f' | Some e \<Rightarrow> Inl e))"
  by pat_completeness auto
termination
  by (relation "measure (\<lambda>f. length (args f))") (auto dest: parseOne_seen [OF sym])

declare parseLoop.simps [simp del]

text \<open>What ends the process: \<open>os.Exit\<close> with its code, or the panic of \<open>FlagSet.Var\<close>
  when a flag is defined twice.\<close>

datatype failure = Exit int | PanicFlagRedefined string

text \<open>\<open>FlagSet.Parse\<close> of a set created with \<open>flag.ExitOnError\<close>: on an error the process
  exits, with code 0 for \<open>ErrHelp\<close> and code 2 otherwise.\<close>

definition Parse :: "FlagSet \<Rightarrow> string list \<Rightarrow> failure + FlagSet" where
  "Parse f arguments =
     (case parseLoop (f\<lparr>args := arguments\<rparr>) of
        Inl ErrHelp \<Rightarrow> Inl (Exit 0)
      | Inl e \<Rightarrow> Inl (Exit 2)
      | Inr f' \<Rightarrow> Inr f')"

text \<open>The flag variables of the source, as \<open>runServer\<close> reads them.\<close>

record Configuration =
  verbose :: bool
  bindAddress :: string
  endpoint :: string
  license :: string
  country :: string
  psiphonEnabled :: bool
  gool :: bool
  scan :: bool
  rtt :: int

definition boolVar :: "FlagSet \<Rightarrow> string \<Rightarrow> bool" where
  "boolVar f name = (case formal f name of Some (BoolValue b) \<Rightarrow> b | _ \<Rightarrow> False)"

definition stringVar :: "FlagSet \<Rightarrow> string \<Rightarrow> string" where
  "stringVar f name = (case formal f name of Some (StringValue s) \<Rightarrow> s | _ \<Rightarrow> [])"

text \<open>The set \<open>fs\<close> after lines 92 to 100: eight flags with their defaults. The ninth
  flag, \<open>rtt\<close>, is defined by \<open>flag.Int\<close>, that is on the process-wide set
  \<open>flag.CommandLine\<close>, not on \<open>fs\<close>.\<close>

definition fs :: FlagSet where
  "fs = \<lparr>formal =
            [''v'' \<mapsto> BoolValue False,
             ''b'' \<mapsto> StringValue ''127.0.0.1:8086'',
             ''e'' \<mapsto> StringValue ''notset'',
             ''k'' \<mapsto> StringValue ''notset'',
             ''country'' \<mapsto> StringValue [],
             ''cfon'' \<mapsto> BoolValue False,
             ''gool'' \<mapsto> BoolValue False,
             ''scan'' \<mapsto> BoolValue False],
          args = []\<rparr>"

text \<open>
  Lines 88 to 106 of \<open>RunWarp\<close>: tokenize, define the flags, parse. \<open>rttDefined\<close> tells
  whether \<open>flag.CommandLine\<close> already has a flag \<open>rtt\<close> (it has one after an earlier
  call of \<open>RunWarp\<close> in the same process); \<open>flag.Int\<close> then panics. Nothing in the
  source parses \<open>flag.CommandLine\<close>, so \<open>*rtt\<close> keeps the default that \<open>flag.Int\<close>
  gave it.
\<close>

definition RunWarp_resolve :: "bool \<Rightarrow> string \<Rightarrow> failure + Configuration" where
  "RunWarp_resolve rttDefined argStr =
     (case parseCommandLine argStr of
        (arguments, Some err) \<Rightarrow> Inl (Exit 1)
      | (arguments, None) \<Rightarrow>
          if rttDefined then Inl (PanicFlagRedefined ''rtt'')
          else (case Parse fs arguments of
                  Inl e \<Rightarrow> Inl e
                | Inr f \<Rightarrow>
                    Inr \<lparr>verbose = boolVar f ''v'',
                         bindAddress = stringVar f ''b'',
                         endpoint = stringVar f ''e'',
                         license = stringVar f ''k'',
                         country = stringVar f ''country'',
                         psiphonEnabled = boolVar f ''cfon'',
                         gool = boolVar f ''gool'',
                         scan = boolVar f ''scan'',
                         rtt = 1000\<rparr>))"

section \<open>The forwarding options\<close>

record Tun2socksStartOptions =
  TunFd :: int
  Socks5Server :: string
  FakeIPRange :: string
  MTU :: int
  EnableIPv6 :: bool
  AllowLan :: bool

text \<open>Lines 152 to 159 of \<open>runServer\<close>: the options handed to \<open>lwip.Start\<close>.\<close>

definition tun2socksStartOptions :: "Configuration \<Rightarrow> int \<Rightarrow> Tun2socksStartOptions" where
  "tun2socksStartOptions c fd =
     \<lparr>TunFd = fd,
      Socks5Server = Replace (bindAddress c) ''0.0.0.0'' ''127.0.0.1'',
      FakeIPRange = ''24.0.0.0/8'',
      MTU = 0,
      EnableIPv6 = True,
      AllowLan = True\<rparr>"

text \<open>\<open>strings.Contains(s, substr)\<close>, used to state when the replacement changes
  nothing.\<close>

fun Contains :: "string \<Rightarrow> string \<Rightarrow> bool" where
  "Contains [] substr = (substr = [])"
| "Contains (c # s) substr = (take (length substr) (c # s) = substr \<or> Contains s substr)"

section \<open>The process-wide state\<close>

text \<open>
  The package variables that the exported functions share: the log buffer, the stored
  cancel function (\<open>None\<close> for \<open>nil\<close>, \<open>Some k\<close> for the cancel function of context
  \<open>k\<close>), the contexts cancelled so far, the counter of the wait group, and the exit code
  once \<open>os.Exit\<close> has been called. The mutex \<open>mu\<close> makes \<open>Write\<close> and
  \<open>GetLogMessages\<close> exclude each other: each is one step on this state.
\<close>

record globals =
  logMessages :: "string list"
  cancelFunc :: "nat option"
  cancelled :: "nat set"
  wg :: int
  exited :: "int option"

text \<open>\<open>logWriter.Write\<close>: the result is \<open>(len(bytes), nil)\<close>.\<close>

definition Write :: "'a globals_scheme \<Rightarrow> string \<Rightarrow> (nat \<times> string option) \<times> 'a globals_scheme" where
  "Write g bytes = ((length bytes, None), g\<lparr>logMessages := logMessages g @ [bytes]\<rparr>)"

definition GetLogMessages :: "'a globals_scheme \<Rightarrow> string \<times> 'a globals_scheme" where
  "GetLogMessages g =
     (if length (logMessages g) = 0 then ([], g)
      else (Join (logMessages g) [CHR 0x0A], g\<lparr>logMessages := []\<rparr>))"

text \<open>Calling a cancel function closes the \<open>Done\<close> channel of its context.\<close>

definition cancel :: "nat \<Rightarrow> 'a globals_scheme \<Rightarrow> 'a globals_scheme" where
  "cancel k g = g\<lparr>cancelled := insert k (cancelled g)\<rparr>"

definition osExit :: "int \<Rightarrow> 'a globals_scheme \<Rightarrow> 'a globals_scheme" where
  "osExit code g = g\<lparr>exited := Some code\<rparr>"

definition Shutdown :: "'a globals_scheme \<Rightarrow> 'a globals_scheme" where
  "Shutdown g =
     (case cancelFunc g of
        None \<Rightarrow> g
      | Some k \<Rightarrow> osExit 0 (cancel k g))"

section \<open>The session\<close>

text \<open>
  From line 109 on, \<open>RunWarp\<close> and the goroutine \<open>runServer\<close> run side by side, and the
  host may deliver a signal or call \<open>Shutdown\<close> at any moment. A session is the
  process-wide state together with the place each of them has reached, and the calls
  made so far, in order. Log output is left out: it changes \<open>logMessages\<close> only. The
  tunnel engine started on line 146 gets the context but no cancel function, and
  touches none of this state.
\<close>

datatype mainPc = AtSelect | AtWait | Returned

datatype serverPc = AtStart | AtCtxDone | AtStop | AtWgDone | Finished

datatype event = LwipStart Tun2socksStartOptions | LwipStop | WgDone | RunWarpReturns

record session = globals +
  ctx :: nat
  sigCh :: bool
  inShutdown :: bool
  panicking :: bool
  mainPc :: mainPc
  serverPc :: serverPc
  events :: "event list"

text \<open>Lines 109 to 118: a new context \<open>k\<close>, its cancel function stored, the wait group
  incremented, the goroutine created, the signal channel empty.\<close>

definition startSession :: "globals \<Rightarrow> nat \<Rightarrow> session" where
  "startSession g k =
     globals.extend (g\<lparr>cancelFunc := Some k, wg := wg g + 1\<rparr>)
       \<lparr>ctx = k, sigCh = False, inShutdown = False, panicking = False,
        mainPc = AtSelect, serverPc = AtStart, events = []\<rparr>"

text \<open>
  One step of one of the parties; nothing moves once the process has exited.
  \<^item> \<open>signal\<close>: the operating system delivers SIGINT or SIGTERM to \<open>sigCh\<close>.
  \<^item> \<open>select_signal\<close>, \<open>select_done\<close>: the two cases of the \<open>select\<close> (lines 120 to 127).
  \<^item> \<open>wait\<close>: \<open>wg.Wait()\<close> returns when the counter is zero, and \<open>RunWarp\<close> returns.
  \<^item> \<open>server_start\<close>: \<open>lwip.Start\<close> is called and returns; \<open>server_start_panic\<close>: it
    panics, and the deferred function runs.
  \<^item> \<open>server_done\<close>: \<open><-ctx.Done()\<close> (line 163) returns, and the deferred function runs.
  \<^item> \<open>server_stop\<close>, \<open>server_wg_done\<close>: the deferred function (lines 136 to 142) calls
    \<open>lwip.Stop()\<close> and then, through its own \<open>defer\<close>, \<open>wg.Done()\<close>.
  \<^item> \<open>server_stop_panic\<close>: \<open>lwip.Stop()\<close> panics; \<open>wg.Done()\<close> is not yet deferred, and
    the panic, which no one recovers, ends the process with code 2.
  \<^item> \<open>server_crash\<close>: the panic of \<open>lwip.Start\<close> ends the process with code 2 once the
    deferred calls are done.
  \<^item> \<open>shutdown_cancel\<close>, \<open>shutdown_exit\<close>: the two statements of \<open>Shutdown\<close>, between
    which the other parties may run.
\<close>

inductive step :: "Configuration \<Rightarrow> int \<Rightarrow> session \<Rightarrow> session \<Rightarrow> bool"
  for c :: Configuration and fd :: int
where
  signal:
    "exited s = None \<Longrightarrow> step c fd s (s\<lparr>sigCh := True\<rparr>)"
| select_signal:
    "exited s = None \<Longrightarrow> mainPc s = AtSelect \<Longrightarrow> sigCh s \<Longrightarrow> cancelFunc s = Some k \<Longrightarrow>
     step c fd s ((cancel k s)\<lparr>sigCh := False, mainPc := AtWait\<rparr>)"
| select_done:
    "exited s = None \<Longrightarrow> mainPc s = AtSelect \<Longrightarrow> ctx s \<in> cancelled s \<Longrightarrow>
     step c fd s (s\<lparr>mainPc := AtWait\<rparr>)"
| wait:
    "exited s = None \<Longrightarrow> mainPc s = AtWait \<Longrightarrow> wg s = 0 \<Longrightarrow>
     step c fd s (s\<lparr>mainPc := Returned, events := events s @ [RunWarpReturns]\<rparr>)"
| server_start:
    "exited s = None \<Longrightarrow> serverPc s = AtStart \<Longrightarrow>
     step c fd s (s\<lparr>serverPc := AtCtxDone,
                     events := events s @ [LwipStart (tun2socksStartOptions c fd)]\<rparr>)"
| server_start_panic:
    "exited s = None \<Longrightarrow> serverPc s = AtStart \<Longrightarrow>
     step c fd s (s\<lparr>serverPc := AtStop, panicking := True,
                     events := events s @ [LwipStart (tun2socksStartOptions c fd)]\<rparr>)"
| server_done:
    "exited s = None \<Longrightarrow> serverPc s = AtCtxDone \<Longrightarrow> ctx s \<in> cancelled s \<Longrightarrow>
     step c fd s (s\<lparr>serverPc := AtStop\<rparr>)"
| server_stop:
    "exited s = None \<Longrightarrow> serverPc s = AtStop \<Longrightarrow>
     step c fd s (s\<lparr>serverPc := AtWgDone, events := events s @ [LwipStop]\<rparr>)"
| server_stop_panic:
    "exited s = None \<Longrightarrow> serverPc s = AtStop \<Longrightarrow>
     step c fd s (osExit 2 (s\<lparr>serverPc := AtWgDone, events := events s @ [LwipStop]\<rparr>))"
| server_wg_done:
    "exited s = None \<Longrightarrow> serverPc s = AtWgDone \<Longrightarrow>
     step c fd s (s\<lparr>serverPc := Finished, wg := wg s - 1, events := events s @ [WgDone]\<rparr>)"
| server_crash:
    "exited s = None \<Longrightarrow> serverPc s = Finished \<Longrightarrow> panicking s \<Longrightarrow>
     step c fd s (osExit 2 s)"
| shutdown_cancel:
    "exited s = None \<Longrightarrow> cancelFunc s = Some k \<Longrightarrow>
     step c fd s ((cancel k s)\<lparr>inShutdown := True\<rparr>)"
| shutdown_exit:
    "exited s = None \<Longrightarrow> inShutdown s \<Longrightarrow> step c fd s (osExit 0 s)"

text \<open>The states a session can reach. It starts in a process that has not exited and
  whose wait group is at zero, with a context that is new, hence not cancelled.\<close>

inductive reachable :: "Configuration \<Rightarrow> int \<Rightarrow> session \<Rightarrow> bool"
  for c :: Configuration and fd :: int
where
  start:
    "exited g = None \<Longrightarrow> wg g = 0 \<Longrightarrow> k \<notin> cancelled g \<Longrightarrow>
     reachable c fd (startSession g k)"
| step:
    "reachable c fd s \<Longrightarrow> step c fd s s' \<Longrightarrow> reachable c fd s'"

text \<open>What the calls made so far must be, given the places reached.\<close>

definition eventsAt :: "Configuration \<Rightarrow> int \<Rightarrow> mainPc \<Rightarrow> serverPc \<Rightarrow> event list" where
  "eventsAt c fd m p =
     (case p of
        AtStart \<Rightarrow> []
      | AtCtxDone \<Rightarrow> [LwipStart (tun2socksStartOptions c fd)]
      | AtStop \<Rightarrow> [LwipStart (tun2socksStartOptions c fd)]
      | AtWgDone \<Rightarrow> [LwipStart (tun2socksStartOptions c fd), LwipStop]
      | Finished \<Rightarrow>
          [LwipStart (tun2socksStartOptions c fd), LwipStop, WgDone] @
          (if m = Returned then [RunWarpReturns] else []))"

text \<open>The invariant of a session: the calls made are those the places reached allow, the
  wait group is at one until \<open>runServer\<close> has called \<open>wg.Done()\<close>, and \<open>RunWarp\<close> has
  returned only if \<open>runServer\<close> has finished.\<close>

definition sessionInv :: "Configuration \<Rightarrow> int \<Rightarrow> session \<Rightarrow> bool" where
  "sessionInv c fd s =
     (events s = eventsAt c fd (mainPc s) (serverPc s) \<and>
      wg s = (if serverPc s = Finished then 0 else 1) \<and>
      (mainPc s \<noteq> Returned \<or> serverPc s = Finished))"

section \<open>Lemmas about the tokenizer\<close>

lemma matchHere_no_dash: "s = [] \<or> hd s \<noteq> CHR ''-'' \<Longrightarrow> matchHere s = None"
  by (cases s) (auto simp: matchHere_def matchFlagName_def)

lemma FindAll_skip:
  "matchHere s = None \<Longrightarrow> FindAllStringSubmatch s = FindAllStringSubmatch (tl s)"
  by (subst FindAllStringSubmatch.simps) (simp add: FindAllStringSubmatch.simps [of "[]"])

lemma FindAll_prefix:
  "CHR ''-'' \<notin> set pre \<Longrightarrow> FindAllStringSubmatch (pre @ s) = FindAllStringSubmatch s"
proof (induction pre)
  case Nil
  show ?case by simp
next
  case (Cons c pre)
  then have "matchHere ((c # pre) @ s) = None"
    by (intro matchHere_no_dash) auto
  then have "FindAllStringSubmatch ((c # pre) @ s) = FindAllStringSubmatch (pre @ s)"
    by (simp add: FindAll_skip)
  with Cons show ?case by simp
qed

text \<open>A match is a prefix of the text it is looked for in, and it has the four
  submatches that \<open>appendMatch\<close> reads, so \<open>match ! 1\<close> and \<open>match ! 3\<close> are always in
  range.\<close>

lemma matchWord_split: "matchWord s = Some (w, r) \<Longrightarrow> w @ r = s \<and> w \<noteq> []"
  by (auto simp: matchWord_def split: if_splits)

lemma matchFlagName_split: "matchFlagName s = Some (f, r) \<Longrightarrow> f @ r = s"
  by (auto simp: matchFlagName_def split: list.splits if_splits option.splits
           dest!: matchWord_split)

lemma matchQuoted_split: "matchQuoted q s = Some (v, r) \<Longrightarrow> v @ r = s \<and> v \<noteq> []"
proof -
  have "q \<in> set t \<Longrightarrow> takeWhile (\<lambda>x. x \<noteq> q) t @ q # tl (dropWhile (\<lambda>x. x \<noteq> q) t) = t" for t
    by (induction t) auto
  then show "matchQuoted q s = Some (v, r) \<Longrightarrow> v @ r = s \<and> v \<noteq> []"
    by (auto simp: matchQuoted_def split: list.splits if_splits)
qed

lemma matchValue_split: "matchValue s = Some (v, r) \<Longrightarrow> v @ r = s \<and> v \<noteq> []"
  by (auto simp: matchValue_def matchNonSpace_def split: option.splits if_splits
           dest: matchQuoted_split)

lemma matchOptValue_split: "matchOptValue s = (g2, g3, r) \<Longrightarrow> g2 @ r = s"
  by (auto simp: matchOptValue_def split: list.splits if_splits option.splits
           dest: matchValue_split)

lemma matchHere_split:
  "matchHere s = Some (m, r) \<Longrightarrow> length m = 4 \<and> m ! 0 @ r = s \<and> m ! 0 = m ! 1 @ m ! 2"
  by (auto simp: matchHere_def split: option.splits prod.splits
           dest!: matchFlagName_split matchOptValue_split)

lemma FindAll_match_length: "m \<in> set (FindAllStringSubmatch s) \<Longrightarrow> length m = 4"
proof (induction s rule: FindAllStringSubmatch.induct)
  case (1 s)
  show ?case
  proof (cases "s = []")
    case True
    with "1.prems" show ?thesis by (simp add: FindAllStringSubmatch.simps [of "[]"])
  next
    case False
    show ?thesis
    proof (cases "matchHere s")
      case None
      with "1.prems" have "m \<in> set (FindAllStringSubmatch (tl s))"
        by (simp add: FindAll_skip)
      then show ?thesis
        by (rule "1.IH"(1) [OF False None])
    next
      case (Some a)
      obtain m' r where a: "a = (m', r)" by (cases a)
      with Some False have "FindAllStringSubmatch s = m' # FindAllStringSubmatch r"
        by (subst FindAllStringSubmatch.simps) simp
      with "1.prems" have "m = m' \<or> m \<in> set (FindAllStringSubmatch r)" by simp
      then show ?thesis
        using "1.IH"(2) [OF False Some a [symmetric]] matchHere_split Some a by auto
    qed
  qed
qed

lemma foldl_appendMatch:
  "foldl appendMatch acc ms = acc @ foldl appendMatch [] ms"
proof (induction ms arbitrary: acc)
  case Nil
  show ?case by simp
next
  case (Cons m ms)
  have "foldl appendMatch (appendMatch acc m) ms = appendMatch acc m @ foldl appendMatch [] ms"
    by (rule Cons.IH)
  moreover have "foldl appendMatch (appendMatch [] m) ms = appendMatch [] m @ foldl appendMatch [] ms"
    by (rule Cons.IH)
  moreover have "appendMatch acc m = acc @ appendMatch [] m"
    by (simp add: appendMatch_def)
  ultimately show ?case by simp
qed

lemma parseCommandLine_match:
  "matchHere s = Some (m, r) \<Longrightarrow>
   fst (parseCommandLine s) = appendMatch [] m @ fst (parseCommandLine r)"
proof -
  assume h: "matchHere s = Some (m, r)"
  then have "s \<noteq> []" by (auto simp: matchHere_def matchFlagName_def)
  with h have "FindAllStringSubmatch s = m # FindAllStringSubmatch r"
    by (subst FindAllStringSubmatch.simps) simp
  then show ?thesis
    using foldl_appendMatch [of "appendMatch [] m"] by (simp add: parseCommandLine_def)
qed

lemma matchWord_name:
  assumes "name \<noteq> []" "list_all isWordChar name" "\<not> isWordChar c"
  shows "matchWord (name @ c # r) = Some (name, c # r)"
proof -
  have "\<And>x. x \<in> set name \<Longrightarrow> isWordChar x"
    using assms(2) by (simp add: list_all_iff)
  then have "takeWhile isWordChar (name @ c # r) = name"
    and "dropWhile isWordChar (name @ c # r) = c # r"
    using assms(3) by (simp_all add: takeWhile_append2 dropWhile_append2)
  then show ?thesis using assms(1) by (simp add: matchWord_def)
qed

lemma matchFlagName_name:
  assumes "name \<noteq> []" "list_all isWordChar name" "\<not> isWordChar c"
  shows "matchFlagName (CHR ''-'' # name @ c # r) = Some (CHR ''-'' # name, c # r)"
proof -
  have w: "isWordChar (hd name)"
    using assms(1,2) by (cases name) simp_all
  have "\<not> isWordChar CHR ''-''" by (simp add: isWordChar_def)
  with w have "hd name \<noteq> CHR ''-''" by auto
  then have "(case name @ c # r of [] \<Rightarrow> None
              | d # u \<Rightarrow> if d = CHR ''-'' then matchWord u else None) = None"
    using assms(1) by (cases name) simp_all
  then show ?thesis
    by (simp add: matchFlagName_def matchWord_name [OF assms])
qed



lemma scanTo_suffix: "scanTo s ts t \<Longrightarrow> suffix t s"
proof (induction rule: scanTo.induct)
  case (here s)
  show ?case by simp
next
  case (matched s m r ts t)
  have "m ! 0 @ r = s" using matchHere_split [OF matched.hyps(1)] by blast
  then have "suffix r s" by (metis suffixI)
  with matched.IH show ?case by (rule suffix_order.trans)
next
  case (skipped s ts t)
  then have "suffix (tl s) s" by (cases s) (simp_all add: suffix_Cons)
  with skipped.IH show ?case by (rule suffix_order.trans)
qed

lemma scanTo_end: "scanTo s (fst (parseCommandLine s)) []"
proof (induction s rule: FindAllStringSubmatch.induct)
  case (1 s)
  show ?case
  proof (cases "s = []")
    case True
    have "fst (parseCommandLine []) = []"
      by (simp add: parseCommandLine_def FindAllStringSubmatch.simps [of "[]"])
    with True show ?thesis by (simp add: scanTo.here)
  next
    case False
    show ?thesis
    proof (cases "matchHere s")
      case None
      have "scanTo (tl s) (fst (parseCommandLine (tl s))) []"
        by (rule "1.IH"(1) [OF False None])
      then have "scanTo s (fst (parseCommandLine (tl s))) []"
        by (rule scanTo.skipped [OF False None])
      then show ?thesis
        by (simp add: parseCommandLine_def FindAll_skip [OF None])
    next
      case (Some a)
      obtain m r where a: "a = (m, r)" by (cases a)
      have "scanTo r (fst (parseCommandLine r)) []"
        by (rule "1.IH"(2) [OF False Some a [symmetric]])
      then have "scanTo s (appendMatch [] m @ fst (parseCommandLine r)) []"
        using Some a by (intro scanTo.matched) simp_all
      then show ?thesis
        using Some a by (simp add: parseCommandLine_match)
    qed
  qed
qed


lemma matchValue_quoted:
  assumes "q = dquote \<or> q = squote" "q \<notin> set v"
  shows "matchValue (q # v @ [q]) = Some (q # v @ [q], [])"
proof -
  have "takeWhile (\<lambda>x. x \<noteq> q) (v @ [q]) = v" "dropWhile (\<lambda>x. x \<noteq> q) (v @ [q]) = [q]"
    using assms(2) by (induction v) auto
  then have "matchQuoted q (q # v @ [q]) = Some (q # v @ [q], [])"
    by (simp add: matchQuoted_def)
  moreover have "q = squote \<Longrightarrow> matchQuoted dquote (q # v @ [q]) = None"
    by (simp add: matchQuoted_def)
  ultimately show ?thesis
    using assms(1) by (auto simp: matchValue_def)
qed

text \<open>Group 3 takes part in a match exactly when the flag is followed by \<open>=\<close> or one
  space and then by a character that is not a space, whatever that character is.\<close>

lemma value_group_iff:
  "fst (snd (matchOptValue r)) \<noteq> [] \<longleftrightarrow>
   (\<exists>c d t. r = c # d # t \<and> (c = CHR ''='' \<or> c = CHR '' '') \<and> d \<noteq> CHR '' '')"
proof (cases r)
  case Nil
  then show ?thesis by (simp add: matchOptValue_def)
next
  case (Cons c u)
  show ?thesis
  proof (cases u)
    case Nil
    with Cons show ?thesis
      by (simp add: matchOptValue_def matchValue_def matchQuoted_def matchNonSpace_def)
  next
    case (Cons d t)
    with \<open>r = c # u\<close> show ?thesis
      by (auto simp: matchOptValue_def matchValue_def matchQuoted_def matchNonSpace_def)
  qed
qed

text \<open>\<open>Trim\<close> gives back the text between two quotes when that text neither starts nor
  ends with a quote of either kind.\<close>

lemma Trim_quoted:
  assumes "q = dquote \<or> q = squote"
    and "v = [] \<or> (hd v \<noteq> dquote \<and> hd v \<noteq> squote \<and> last v \<noteq> dquote \<and> last v \<noteq> squote)"
  shows "Trim (q # v @ [q]) [dquote, squote] = v"
proof (cases "v = []")
  case True
  with assms(1) show ?thesis by (auto simp: Trim_def)
next
  case False
  with assms(2) have h: "hd v \<noteq> dquote" "hd v \<noteq> squote" and l: "last v \<noteq> dquote" "last v \<noteq> squote"
    by simp_all
  from False h have "dropWhile (\<lambda>c. c \<in> set [dquote, squote]) (v @ [q]) = v @ [q]"
    by (cases v) simp_all
  then have "dropWhile (\<lambda>c. c \<in> set [dquote, squote]) (q # v @ [q]) = v @ [q]"
    using assms(1) by auto
  moreover have "dropWhile (\<lambda>c. c \<in> set [dquote, squote]) (rev v) = rev v"
    using False l by (cases "rev v") (auto simp: last_rev [symmetric] simp del: last_rev)
  ultimately show ?thesis
    using assms(1) by (auto simp: Trim_def)
qed

section \<open>Lemmas about flag resolution\<close>

lemma parseLoop_no_args: "parseLoop (f\<lparr>args := []\<rparr>) = Inr (f\<lparr>args := []\<rparr>)"
  by (simp add: parseLoop.simps [of "f\<lparr>args := []\<rparr>"] parseOne_def)

lemma Parse_exit_codes: "Parse f arguments = Inl e \<Longrightarrow> e = Exit 0 \<or> e = Exit 2"
  by (auto simp: Parse_def split: sum.splits flagError.splits)

text \<open>Whatever the arguments, a resolution that succeeds leaves \<open>rtt\<close> at 1000.\<close>

lemma resolved_rtt_is_default: "RunWarp_resolve rttDefined argStr = Inr c \<Longrightarrow> rtt c = 1000"
  by (auto simp: RunWarp_resolve_def split: prod.splits option.splits if_splits sum.splits)

text \<open>Every argument string that starts with \<open>-rtt\<close> and a space ends the process with
  code 2, whatever follows: \<open>fs\<close> has no flag \<open>rtt\<close>.\<close>

lemma rtt_flag_always_rejected: "RunWarp_resolve False (''-rtt '' @ v) = Inl (Exit 2)"
proof -
  have "matchFlagName (CHR ''-'' # ''rtt'' @ CHR '' '' # v) = Some (''-rtt'', CHR '' '' # v)"
    by (rule matchFlagName_name) (simp_all add: isWordChar_def)
  moreover obtain g2 g3 r where "matchOptValue (CHR '' '' # v) = (g2, g3, r)"
    by (cases "matchOptValue (CHR '' '' # v)") auto
  ultimately have "matchHere (''-rtt '' @ v) = Some ([''-rtt'' @ g2, ''-rtt'', g2, g3], r)"
    by (simp add: matchHere_def)
  then obtain m where m: "matchHere (''-rtt '' @ v) = Some (m, r)" "m ! 1 = ''-rtt''"
    by simp
  define ts where "ts = tl (appendMatch [] m) @ fst (parseCommandLine r)"
  have "appendMatch [] m = ''-rtt'' # tl (appendMatch [] m)"
    using m(2) by (simp add: appendMatch_def)
  then have "appendMatch [] m @ fst (parseCommandLine r) = ''-rtt'' # ts"
    unfolding ts_def by (metis append_Cons)
  then have ts: "fst (parseCommandLine (''-rtt '' @ v)) = ''-rtt'' # ts"
    using parseCommandLine_match [OF m(1)] by simp
  have "parseOne (fs\<lparr>args := ''-rtt'' # ts\<rparr>) =
          ((False, Some (NotDefined ''rtt'')), fs\<lparr>args := ts\<rparr>)"
    by (simp add: parseOne_def splitValue_def fs_def)
  then have "parseLoop (fs\<lparr>args := ''-rtt'' # ts\<rparr>) = Inl (NotDefined ''rtt'')"
    by (subst parseLoop.simps) simp
  then have "Parse fs (''-rtt'' # ts) = Inl (Exit 2)"
    by (simp add: Parse_def)
  moreover have "parseCommandLine (''-rtt '' @ v) = (''-rtt'' # ts, None)"
    using ts by (simp add: parseCommandLine_def)
  ultimately show ?thesis
    by (simp add: RunWarp_resolve_def)
qed

text \<open>A value of \<open>-e\<close> between two quotes \<open>q\<close> is resolved to the text between them when
  that text has no \<open>q\<close> and neither starts nor ends with a quote of either kind.\<close>

lemma quoted_endpoint_preserved:
  assumes "q = dquote \<or> q = squote" and "q \<notin> set v"
    and "v = [] \<or> (hd v \<noteq> dquote \<and> hd v \<noteq> squote \<and> last v \<noteq> dquote \<and> last v \<noteq> squote)"
  shows "RunWarp_resolve False (''-e '' @ q # v @ [q]) =
     Inr \<lparr>verbose = False, bindAddress = ''127.0.0.1:8086'', endpoint = v,
          license = ''notset'', country = [], psiphonEnabled = False, gool = False,
          scan = False, rtt = 1000\<rparr>"
proof -
  let ?g = "q # v @ [q]"
  have "matchFlagName (CHR ''-'' # ''e'' @ CHR '' '' # ?g) = Some (''-e'', CHR '' '' # ?g)"
    by (rule matchFlagName_name) (simp_all add: isWordChar_def)
  moreover have "matchOptValue (CHR '' '' # ?g) = (CHR '' '' # ?g, ?g, [])"
    by (simp add: matchOptValue_def matchValue_quoted [OF assms(1,2)])
  ultimately have "matchHere (''-e '' @ ?g) =
      Some ([''-e'' @ CHR '' '' # ?g, ''-e'', CHR '' '' # ?g, ?g], [])"
    by (simp add: matchHere_def)
  then have "fst (parseCommandLine (''-e '' @ ?g)) =
      appendMatch [] [''-e'' @ CHR '' '' # ?g, ''-e'', CHR '' '' # ?g, ?g] @
      fst (parseCommandLine [])"
    by (rule parseCommandLine_match)
  moreover have "fst (parseCommandLine []) = []"
    by (simp add: parseCommandLine_def FindAllStringSubmatch.simps [of "[]"])
  ultimately have "fst (parseCommandLine (''-e '' @ ?g)) = [''-e'', v]"
    using Trim_quoted [OF assms(1,3)] by (simp add: appendMatch_def)
  then have t: "parseCommandLine (''-e '' @ ?g) = ([''-e'', v], None)"
    by (simp add: parseCommandLine_def)
  have "parseOne (fs\<lparr>args := [''-e'', v]\<rparr>) =
      ((True, None), fs\<lparr>formal := (formal fs)(''e'' \<mapsto> StringValue v), args := []\<rparr>)"
    by (simp add: parseOne_def splitValue_def fs_def)
  then have "parseLoop (fs\<lparr>args := [''-e'', v]\<rparr>) =
      Inr (fs\<lparr>formal := (formal fs)(''e'' \<mapsto> StringValue v), args := []\<rparr>)"
    using parseLoop_no_args [of "fs\<lparr>formal := (formal fs)(''e'' \<mapsto> StringValue v)\<rparr>"]
    by (subst parseLoop.simps) simp
  then have "Parse fs [''-e'', v] =
      Inr (fs\<lparr>formal := (formal fs)(''e'' \<mapsto> StringValue v), args := []\<rparr>)"
    by (simp add: Parse_def)
  with t show ?thesis
    by (simp add: RunWarp_resolve_def boolVar_def stringVar_def fs_def)
qed

text \<open>The example of the specification, \<open>-e "10.0.0.1 backup"\<close>.\<close>

lemma quoted_endpoint_example:
  "RunWarp_resolve False (''-e '' @ dquote # ''10.0.0.1 backup'' @ [dquote]) =
     Inr \<lparr>verbose = False, bindAddress = ''127.0.0.1:8086'', endpoint = ''10.0.0.1 backup'',
          license = ''notset'', country = [], psiphonEnabled = False, gool = False,
          scan = False, rtt = 1000\<rparr>"
  by (rule quoted_endpoint_preserved) simp_all

section \<open>Lemmas about the forwarding options\<close>

lemma Replace_absent:
  "old \<noteq> [] \<Longrightarrow> \<not> Contains s old \<Longrightarrow> Replace s old new = s"
proof (induction s)
  case Nil
  then show ?case by (simp add: Replace.simps [of "[]"])
next
  case (Cons c s)
  then show ?case by (simp add: Replace.simps [of "c # s"])
qed

lemma no_dot_no_wildcard: "CHR ''.'' \<notin> set s \<Longrightarrow> \<not> Contains s ''0.0.0.0''"
proof (induction s)
  case Nil
  show ?case by simp
next
  case (Cons c s)
  have "take (length ''0.0.0.0'') (c # s) \<noteq> ''0.0.0.0''"
  proof
    assume "take (length ''0.0.0.0'') (c # s) = ''0.0.0.0''"
    then have "set ''0.0.0.0'' \<subseteq> set (c # s)" by (metis set_take_subset)
    with Cons.prems show False by simp
  qed
  moreover from Cons have "\<not> Contains s ''0.0.0.0''" by simp
  ultimately show ?case by (simp only: Contains.simps) blast
qed

text \<open>The wildcard host in front of a port becomes the loopback host.\<close>

lemma Replace_wildcard_host:
  assumes "CHR ''.'' \<notin> set port"
  shows "Replace (''0.0.0.0:'' @ port) ''0.0.0.0'' ''127.0.0.1'' = ''127.0.0.1:'' @ port"
proof -
  have "\<not> Contains (CHR '':'' # port) ''0.0.0.0''"
    using assms by (intro no_dot_no_wildcard) simp
  then have "Replace (CHR '':'' # port) ''0.0.0.0'' ''127.0.0.1'' = CHR '':'' # port"
    by (intro Replace_absent) simp_all
  then show ?thesis
    by (subst Replace.simps) simp
qed

text \<open>The replacement looks for the text \<open>0.0.0.0\<close> anywhere, not for the host: the
  address \<open>10.0.0.0:8086\<close> is handed over as \<open>1127.0.0.1:8086\<close>.\<close>

lemma bind_address_substring_rewritten:
  "Socks5Server (tun2socksStartOptions
     \<lparr>verbose = False, bindAddress = ''10.0.0.0:8086'', endpoint = ''notset'',
      license = ''notset'', country = [], psiphonEnabled = False, gool = False,
      scan = False, rtt = 1000\<rparr> 3) = ''1127.0.0.1:8086''"
  by code_simp

section \<open>Lemmas about the session\<close>

lemma sessionInv_start: "wg g = 0 \<Longrightarrow> sessionInv c fd (startSession g k)"
  by (simp add: sessionInv_def startSession_def eventsAt_def globals.extend_def)

lemma sessionInv_step: "step c fd s s' \<Longrightarrow> sessionInv c fd s \<Longrightarrow> sessionInv c fd s'"
  by (induction rule: step.induct)
     (auto simp: sessionInv_def eventsAt_def cancel_def osExit_def split: if_splits)

lemma reachable_sessionInv: "reachable c fd s \<Longrightarrow> sessionInv c fd s"
  by (induction rule: reachable.induct) (auto intro: sessionInv_start sessionInv_step)

text \<open>A run in which a signal ends the session: \<open>lwip.Start\<close>, the signal, the
  \<open>select\<close>, the end of \<open>runServer\<close> with its deferred calls, and the return of
  \<open>RunWarp\<close>.\<close>

lemma signalled_run:
  "reachable c fd
     \<lparr>logMessages = [], cancelFunc = Some 0, cancelled = {0}, wg = 0, exited = None,
      ctx = 0, sigCh = False, inShutdown = False, panicking = False,
      mainPc = Returned, serverPc = Finished,
      events = [LwipStart (tun2socksStartOptions c fd), LwipStop, WgDone, RunWarpReturns]\<rparr>"
proof -
  let ?g = "\<lparr>logMessages = [], cancelFunc = None, cancelled = {}, wg = 0, exited = None\<rparr>"
  let ?o = "LwipStart (tun2socksStartOptions c fd)"
  have "reachable c fd (startSession ?g 0)"
    by (rule reachable.start) simp_all
  then have r0: "reachable c fd
     \<lparr>logMessages = [], cancelFunc = Some 0, cancelled = {}, wg = 1, exited = None,
      ctx = 0, sigCh = False, inShutdown = False, panicking = False,
      mainPc = AtSelect, serverPc = AtStart, events = []\<rparr>"
    by (simp add: startSession_def globals.extend_def)
  have r1: "reachable c fd
     \<lparr>logMessages = [], cancelFunc = Some 0, cancelled = {}, wg = 1, exited = None,
      ctx = 0, sigCh = False, inShutdown = False, panicking = False,
      mainPc = AtSelect, serverPc = AtCtxDone, events = [?o]\<rparr>"
    using reachable.step [OF r0 step.server_start] by simp
  have r2: "reachable c fd
     \<lparr>logMessages = [], cancelFunc = Some 0, cancelled = {}, wg = 1, exited = None,
      ctx = 0, sigCh = True, inShutdown = False, panicking = False,
      mainPc = AtSelect, serverPc = AtCtxDone, events = [?o]\<rparr>"
    using reachable.step [OF r1 step.signal] by simp
  have r3: "reachable c fd
     \<lparr>logMessages = [], cancelFunc = Some 0, cancelled = {0}, wg = 1, exited = None,
      ctx = 0, sigCh = False, inShutdown = False, panicking = False,
      mainPc = AtWait, serverPc = AtCtxDone, events = [?o]\<rparr>"
    using reachable.step [OF r2 step.select_signal [where k = 0]] by (simp add: cancel_def)
  have r4: "reachable c fd
     \<lparr>logMessages = [], cancelFunc = Some 0, cancelled = {0}, wg = 1, exited = None,
      ctx = 0, sigCh = False, inShutdown = False, panicking = False,
      mainPc = AtWait, serverPc = AtStop, events = [?o]\<rparr>"
    using reachable.step [OF r3 step.server_done] by simp
  have r5: "reachable c fd
     \<lparr>logMessages = [], cancelFunc = Some 0, cancelled = {0}, wg = 1, exited = None,
      ctx = 0, sigCh = False, inShutdown = False, panicking = False,
      mainPc = AtWait, serverPc = AtWgDone, events = [?o, LwipStop]\<rparr>"
    using reachable.step [OF r4 step.server_stop] by simp
  have r6: "reachable c fd
     \<lparr>logMessages = [], cancelFunc = Some 0, cancelled = {0}, wg = 0, exited = None,
      ctx = 0, sigCh = False, inShutdown = False, panicking = False,
      mainPc = AtWait, serverPc = Finished, events = [?o, LwipStop, WgDone]\<rparr>"
    using reachable.step [OF r5 step.server_wg_done] by simp
  show ?thesis
    using reachable.step [OF r6 step.wait] by simp
qed

text \<open>The two steps of \<open>Shutdown\<close> in a session make up the function \<open>Shutdown\<close>.\<close>

lemma Shutdown_in_two_steps:
  "exited s = None \<Longrightarrow> cancelFunc s = Some k \<Longrightarrow>
   step c fd s ((cancel k s)\<lparr>inShutdown := True\<rparr>) \<and>
   step c fd ((cancel k s)\<lparr>inShutdown := True\<rparr>) (Shutdown (s\<lparr>inShutdown := True\<rparr>))"
proof -
  assume e: "exited s = None" and k: "cancelFunc s = Some k"
  have "step c fd ((cancel k s)\<lparr>inShutdown := True\<rparr>) (osExit 0 ((cancel k s)\<lparr>inShutdown := True\<rparr>))"
    by (rule step.shutdown_exit) (simp_all add: e cancel_def)
  moreover have "osExit 0 ((cancel k s)\<lparr>inShutdown := True\<rparr>) = Shutdown (s\<lparr>inShutdown := True\<rparr>)"
    using k by (simp add: Shutdown_def osExit_def cancel_def)
  ultimately show ?thesis
    using step.shutdown_cancel [OF e k] by simp
qed

text \<open>A run that \<open>Shutdown\<close> ends: the process exits while \<open>runServer\<close> still waits,
  \<open>lwip.Stop\<close> is never called and \<open>RunWarp\<close> never returns.\<close>

lemma shutdown_run:
  "reachable c fd
     \<lparr>logMessages = [], cancelFunc = Some 0, cancelled = {0}, wg = 1, exited = Some 0,
      ctx = 0, sigCh = False, inShutdown = True, panicking = False,
      mainPc = AtSelect, serverPc = AtCtxDone,
      events = [LwipStart (tun2socksStartOptions c fd)]\<rparr>"
proof -
  let ?g = "\<lparr>logMessages = [], cancelFunc = None, cancelled = {}, wg = 0, exited = None\<rparr>"
  let ?o = "LwipStart (tun2socksStartOptions c fd)"
  have "reachable c fd (startSession ?g 0)"
    by (rule reachable.start) simp_all
  then have r0: "reachable c fd
     \<lparr>logMessages = [], cancelFunc = Some 0, cancelled = {}, wg = 1, exited = None,
      ctx = 0, sigCh = False, inShutdown = False, panicking = False,
      mainPc = AtSelect, serverPc = AtStart, events = []\<rparr>"
    by (simp add: startSession_def globals.extend_def)
  have r1: "reachable c fd
     \<lparr>logMessages = [], cancelFunc = Some 0, cancelled = {}, wg = 1, exited = None,
      ctx = 0, sigCh = False, inShutdown = False, panicking = False,
      mainPc = AtSelect, serverPc = AtCtxDone, events = [?o]\<rparr>"
    using reachable.step [OF r0 step.server_start] by simp
  have r2: "reachable c fd
     \<lparr>logMessages = [], cancelFunc = Some 0, cancelled = {0}, wg = 1, exited = None,
      ctx = 0, sigCh = False, inShutdown = True, panicking = False,
      mainPc = AtSelect, serverPc = AtCtxDone, events = [?o]\<rparr>"
    using reachable.step [OF r1 step.shutdown_cancel [where k = 0]] by (simp add: cancel_def)
  show ?thesis
    using reachable.step [OF r2 step.shutdown_exit] by (simp add: osExit_def)
qed

text \<open>Nothing moves after the exit.\<close>

lemma exited_is_final: "exited s \<noteq> None \<Longrightarrow> \<not> step c fd s s'"
  by (auto elim: step.cases)

section \<open>Lemmas about the log buffer\<close>

text \<open>\<open>Join\<close> in terms of the library: the joined text followed by the separator is the
  concatenation of the elements, each followed by the separator.\<close>

lemma Join_lines:
  "xs \<noteq> [] \<Longrightarrow> Join xs sep @ sep = concat (map (\<lambda>line. line @ sep) xs)"
  by (induction xs sep rule: Join.induct) simp_all

text \<open>Two lines written, then retrieved: the lines with a newline between them.\<close>

lemma log_lines_drained:
  "fst (GetLogMessages (snd (Write (snd (Write g ''one'')) ''two''))) =
     (if logMessages g = [] then ''one'' @ [CHR 0x0A] @ ''two''
      else Join (logMessages g @ [''one'', ''two'']) [CHR 0x0A])"
  by (simp add: GetLogMessages_def Write_def)

section \<open>The claims\<close>

text \<open>
  C1. An argument string that gives \<open>-rtt\<close> an integer \<open>n\<close> should resolve to a
  configuration whose \<open>rtt\<close> is \<open>n\<close>. The code defines \<open>rtt\<close> with \<open>flag.Int\<close>, on
  \<open>flag.CommandLine\<close>, and parses with \<open>fs\<close>: for \<open>-rtt 500\<close> the tokens are \<open>-rtt\<close> and
  \<open>500\<close>, \<open>fs\<close> reports a flag that is not defined, and the process exits with code 2.
\<close>

theorem rtt_flag_is_not_defined:
  "parseCommandLine ''-rtt 500'' = ([''-rtt'', ''500''], None) \<and>
   isl (parseLoop (fs\<lparr>args := [''-rtt'', ''500'']\<rparr>)) \<and>
   projl (parseLoop (fs\<lparr>args := [''-rtt'', ''500'']\<rparr>)) = NotDefined ''rtt'' \<and>
   RunWarp_resolve False ''-rtt 500'' = Inl (Exit 2)"
  by code_simp

text \<open>
  C2. A value token should follow a flag only when the candidate is not itself a new
  flag. In the code the third branch of group 3, \<open>[^ ]+\<close>, takes any run of characters
  without a space: in \<open>-v -b 127.0.0.1:1080\<close> the one match is \<open>-v -b\<close>, with \<open>-b\<close> as
  the value of \<open>-v\<close>; the address is dropped, and resolution exits with code 2 because
  \<open>-b\<close> has no argument.
\<close>

theorem flag_taken_as_value:
  "FindAllStringSubmatch ''-v -b 127.0.0.1:1080'' = [[''-v -b'', ''-v'', '' -b'', ''-b'']] \<and>
   parseCommandLine ''-v -b 127.0.0.1:1080'' = ([''-v'', ''-b''], None) \<and>
   RunWarp_resolve False ''-v -b 127.0.0.1:1080'' = Inl (Exit 2)"
  by code_simp

text \<open>
  C3, as stated: the forwarding engine gets exactly the resolved bind address. It fails
  for \<open>-b 0.0.0.0:8086\<close>: the bind address resolves to \<open>0.0.0.0:8086\<close>, and the engine
  gets \<open>127.0.0.1:8086\<close>.
\<close>

theorem bind_address_rewritten:
  "RunWarp_resolve False ''-b 0.0.0.0:8086'' =
     Inr \<lparr>verbose = False, bindAddress = ''0.0.0.0:8086'', endpoint = ''notset'',
          license = ''notset'', country = [], psiphonEnabled = False, gool = False,
          scan = False, rtt = 1000\<rparr> \<and>
   Socks5Server (tun2socksStartOptions
     \<lparr>verbose = False, bindAddress = ''0.0.0.0:8086'', endpoint = ''notset'',
      license = ''notset'', country = [], psiphonEnabled = False, gool = False,
      scan = False, rtt = 1000\<rparr> 3) = ''127.0.0.1:8086'' \<and>
   Socks5Server (tun2socksStartOptions
     \<lparr>verbose = False, bindAddress = ''0.0.0.0:8086'', endpoint = ''notset'',
      license = ''notset'', country = [], psiphonEnabled = False, gool = False,
      scan = False, rtt = 1000\<rparr> 3) \<noteq> ''0.0.0.0:8086''"
  by code_simp

text \<open>
  C3, amended: for every configuration and descriptor, the forwarding engine is started
  with the resolved bind address as its SOCKS server address, the wildcard host being
  rewritten to the loopback host: a bind address \<open>0.0.0.0:port\<close> is handed over as
  \<open>127.0.0.1:port\<close>, and a bind address that does not contain \<open>0.0.0.0\<close> is handed over
  as it is; the fixed options are the fake range \<open>24.0.0.0/8\<close>, MTU 0 (automatic), IPv6
  enabled and LAN traffic allowed, and the descriptor is the one that \<open>RunWarp\<close> got.
\<close>

theorem forwarding_options:
  "TunFd (tun2socksStartOptions c fd) = fd \<and>
   FakeIPRange (tun2socksStartOptions c fd) = ''24.0.0.0/8'' \<and>
   MTU (tun2socksStartOptions c fd) = 0 \<and>
   EnableIPv6 (tun2socksStartOptions c fd) \<and>
   AllowLan (tun2socksStartOptions c fd) \<and>
   (bindAddress c = ''0.0.0.0:'' @ port \<and> CHR ''.'' \<notin> set port \<longrightarrow>
      Socks5Server (tun2socksStartOptions c fd) = ''127.0.0.1:'' @ port) \<and>
   (\<not> Contains (bindAddress c) ''0.0.0.0'' \<longrightarrow>
      Socks5Server (tun2socksStartOptions c fd) = bindAddress c)"
proof -
  have s: "Socks5Server (tun2socksStartOptions c fd) =
      Replace (bindAddress c) ''0.0.0.0'' ''127.0.0.1''"
    by (simp add: tun2socksStartOptions_def)
  have "Socks5Server (tun2socksStartOptions c fd) = ''127.0.0.1:'' @ port"
    if a: "bindAddress c = ''0.0.0.0:'' @ port" and b: "CHR ''.'' \<notin> set port"
    unfolding s a by (rule Replace_wildcard_host [OF b])
  moreover have "\<not> Contains (bindAddress c) ''0.0.0.0'' \<Longrightarrow>
      Socks5Server (tun2socksStartOptions c fd) = bindAddress c"
    by (simp add: s Replace_absent)
  moreover have "TunFd (tun2socksStartOptions c fd) = fd"
    and "FakeIPRange (tun2socksStartOptions c fd) = ''24.0.0.0/8''"
    and "MTU (tun2socksStartOptions c fd) = 0"
    and "EnableIPv6 (tun2socksStartOptions c fd)"
    and "AllowLan (tun2socksStartOptions c fd)"
    by (simp_all add: tun2socksStartOptions_def)
  ultimately show ?thesis by blast
qed

theorem forwarding_options_witness:
  "''0.0.0.0:8086'' = ''0.0.0.0:'' @ ''8086'' \<and> CHR ''.'' \<notin> set ''8086'' \<and>
   Socks5Server (tun2socksStartOptions
     \<lparr>verbose = False, bindAddress = ''0.0.0.0:8086'', endpoint = ''notset'',
      license = ''notset'', country = [], psiphonEnabled = False, gool = False,
      scan = False, rtt = 1000\<rparr> 3) = ''127.0.0.1:8086'' \<and>
   \<not> Contains ''127.0.0.1:8086'' ''0.0.0.0'' \<and>
   Socks5Server (tun2socksStartOptions
     \<lparr>verbose = False, bindAddress = ''127.0.0.1:8086'', endpoint = ''notset'',
      license = ''notset'', country = [], psiphonEnabled = False, gool = False,
      scan = False, rtt = 1000\<rparr> 3) = ''127.0.0.1:8086''"
proof -
  let ?w = "\<lparr>verbose = False, bindAddress = ''0.0.0.0:8086'', endpoint = ''notset'',
      license = ''notset'', country = [], psiphonEnabled = False, gool = False,
      scan = False, rtt = 1000\<rparr>"
  let ?d = "\<lparr>verbose = False, bindAddress = ''127.0.0.1:8086'', endpoint = ''notset'',
      license = ''notset'', country = [], psiphonEnabled = False, gool = False,
      scan = False, rtt = 1000\<rparr>"
  have "Socks5Server (tun2socksStartOptions ?w 3) = ''127.0.0.1:'' @ ''8086''"
    using forwarding_options [of ?w 3 "''8086''"] by simp
  moreover have "Socks5Server (tun2socksStartOptions ?d 3) = bindAddress ?d"
    using forwarding_options [of ?d 3] by simp
  ultimately show ?thesis by simp
qed




text \<open>
  C5. When the tokenizer finds no flag in the argument string, resolution yields the
  default configuration: \<open>verbose\<close> false, \<open>bindAddress\<close> \<open>127.0.0.1:8086\<close>, \<open>endpoint\<close> and
  \<open>license\<close> \<open>notset\<close>, \<open>country\<close> empty, \<open>psiphonEnabled\<close>, \<open>gool\<close> and \<open>scan\<close> false,
  \<open>rtt\<close> 1000. This is the first resolution of the process: \<open>flag.CommandLine\<close> has no
  flag \<open>rtt\<close> yet.
\<close>

theorem no_flags_default_configuration:
  "fst (parseCommandLine argStr) = [] \<Longrightarrow>
   RunWarp_resolve False argStr =
     Inr \<lparr>verbose = False, bindAddress = ''127.0.0.1:8086'', endpoint = ''notset'',
          license = ''notset'', country = [], psiphonEnabled = False, gool = False,
          scan = False, rtt = 1000\<rparr>"
proof -
  assume "fst (parseCommandLine argStr) = []"
  then have "parseCommandLine argStr = ([], None)"
    by (simp add: parseCommandLine_def)
  moreover have "Parse fs [] = Inr (fs\<lparr>args := []\<rparr>)"
    by (simp add: Parse_def parseLoop_no_args)
  ultimately show ?thesis
    by (simp add: RunWarp_resolve_def boolVar_def stringVar_def fs_def)
qed

theorem no_flags_default_configuration_witness:
  "fst (parseCommandLine ''hello - world'') = [] \<and>
   RunWarp_resolve False ''hello - world'' =
     Inr \<lparr>verbose = False, bindAddress = ''127.0.0.1:8086'', endpoint = ''notset'',
          license = ''notset'', country = [], psiphonEnabled = False, gool = False,
          scan = False, rtt = 1000\<rparr>"
proof -
  have h: "fst (parseCommandLine ''hello - world'') = []" by code_simp
  show ?thesis using h no_flags_default_configuration [OF h] by simp
qed

text \<open>
  C6. A value wrapped in matching quotes should be resolved verbatim, with the
  surrounding quotes stripped. The code strips with \<open>strings.Trim\<close>, which removes every
  leading and trailing quote of either kind: for \<open>-e "10.0.0.1 'backup'"\<close> the text
  between the double quotes is \<open>10.0.0.1 'backup'\<close>, and \<open>endpoint\<close> resolves to
  \<open>10.0.0.1 'backup\<close>, without the last single quote.
\<close>

theorem quoted_value_trimmed_too_far:
  "parseCommandLine (''-e '' @ [dquote] @ ''10.0.0.1 '' @ [squote] @ ''backup'' @ [squote, dquote]) =
     ([''-e'', ''10.0.0.1 '' @ [squote] @ ''backup''], None) \<and>
   RunWarp_resolve False
     (''-e '' @ [dquote] @ ''10.0.0.1 '' @ [squote] @ ''backup'' @ [squote, dquote]) =
     Inr \<lparr>verbose = False, bindAddress = ''127.0.0.1:8086'',
          endpoint = ''10.0.0.1 '' @ [squote] @ ''backup'', license = ''notset'', country = [],
          psiphonEnabled = False, gool = False, scan = False, rtt = 1000\<rparr>"
  by code_simp

text \<open>
  C7. For every state, \<open>GetLogMessages\<close> returns the buffered lines joined by a newline:
  for a buffer that is not empty, the returned text followed by a newline is the
  concatenation of the lines, each followed by a newline. It leaves the state with an
  empty buffer and nothing else changed, so that a second call right after it returns
  the empty string; when the buffer is empty it returns the empty string and the state
  is unchanged.
\<close>

theorem log_retrieval:
  "(logMessages g \<noteq> [] \<longrightarrow>
      fst (GetLogMessages g) @ [CHR 0x0A] =
        concat (map (\<lambda>line. line @ [CHR 0x0A]) (logMessages g))) \<and>
   fst (GetLogMessages g) = Join (logMessages g) [CHR 0x0A] \<and>
   snd (GetLogMessages g) = g\<lparr>logMessages := []\<rparr> \<and>
   fst (GetLogMessages (snd (GetLogMessages g))) = [] \<and>
   (logMessages g = [] \<longrightarrow> GetLogMessages g = ([], g))"
  by (simp add: GetLogMessages_def Join_lines)

theorem log_retrieval_witness:
  "logMessages \<lparr>logMessages = [''one'', ''two''], cancelFunc = Some 0, cancelled = {}, wg = 1,
                exited = None\<rparr> \<noteq> [] \<and>
   GetLogMessages \<lparr>logMessages = [''one'', ''two''], cancelFunc = Some 0, cancelled = {}, wg = 1,
                   exited = None\<rparr> =
     (''one'' @ [CHR 0x0A] @ ''two'',
      \<lparr>logMessages = [], cancelFunc = Some 0, cancelled = {}, wg = 1, exited = None\<rparr>) \<and>
   logMessages \<lparr>logMessages = [], cancelFunc = Some 0, cancelled = {}, wg = 1, exited = None\<rparr> = [] \<and>
   GetLogMessages \<lparr>logMessages = [], cancelFunc = Some 0, cancelled = {}, wg = 1, exited = None\<rparr> =
     ([], \<lparr>logMessages = [], cancelFunc = Some 0, cancelled = {}, wg = 1, exited = None\<rparr>)"
proof -
  let ?g = "\<lparr>logMessages = [''one'', ''two''], cancelFunc = Some 0, cancelled = {}, wg = 1,
             exited = None\<rparr>"
  let ?e = "\<lparr>logMessages = [], cancelFunc = Some 0, cancelled = {}, wg = 1, exited = None\<rparr>"
  have "fst (GetLogMessages ?g) @ [CHR 0x0A] = (''one'' @ [CHR 0x0A] @ ''two'') @ [CHR 0x0A]"
    using log_retrieval [of ?g] by simp
  then have t: "fst (GetLogMessages ?g) = ''one'' @ [CHR 0x0A] @ ''two''"
    by (simp only: append_same_eq)
  have "snd (GetLogMessages ?g) = ?e"
    using log_retrieval [of ?g] by simp
  with t have "GetLogMessages ?g = (''one'' @ [CHR 0x0A] @ ''two'', ?e)"
    by (simp add: prod_eq_iff)
  moreover have "GetLogMessages ?e = ([], ?e)"
    using log_retrieval [of ?e] by simp
  ultimately show ?thesis by simp
qed

text \<open>
  C8. In every state that a session can reach, the calls made so far are an initial
  part of the sequence \<open>lwip.Start\<close>, \<open>lwip.Stop\<close>, \<open>wg.Done\<close>, return of \<open>RunWarp\<close>: the
  engine is stopped before the wait group is released, and the wait group is released
  before \<open>RunWarp\<close> returns; once \<open>RunWarp\<close> has returned, the counter of the wait group
  is zero and all four have happened, in this order.
\<close>

theorem cleanup_before_return:
  "reachable c fd s \<Longrightarrow>
   prefix (events s) [LwipStart (tun2socksStartOptions c fd), LwipStop, WgDone, RunWarpReturns] \<and>
   (mainPc s = Returned \<longrightarrow>
      wg s = 0 \<and>
      events s = [LwipStart (tun2socksStartOptions c fd), LwipStop, WgDone, RunWarpReturns])"
proof -
  assume "reachable c fd s"
  then have "sessionInv c fd s" by (rule reachable_sessionInv)
  then show ?thesis
    by (cases "serverPc s") (auto simp: sessionInv_def eventsAt_def prefix_def)
qed

theorem cleanup_before_return_witness:
  "reachable
     \<lparr>verbose = False, bindAddress = ''127.0.0.1:8086'', endpoint = ''notset'',
      license = ''notset'', country = [], psiphonEnabled = False, gool = False,
      scan = False, rtt = 1000\<rparr> 3
     \<lparr>logMessages = [], cancelFunc = Some 0, cancelled = {0}, wg = 0, exited = None,
      ctx = 0, sigCh = False, inShutdown = False, panicking = False,
      mainPc = Returned, serverPc = Finished,
      events =
        [LwipStart \<lparr>TunFd = 3, Socks5Server = ''127.0.0.1:8086'', FakeIPRange = ''24.0.0.0/8'',
                    MTU = 0, EnableIPv6 = True, AllowLan = True\<rparr>,
         LwipStop, WgDone, RunWarpReturns]\<rparr>"
proof -
  let ?c = "\<lparr>verbose = False, bindAddress = ''127.0.0.1:8086'', endpoint = ''notset'',
      license = ''notset'', country = [], psiphonEnabled = False, gool = False,
      scan = False, rtt = 1000\<rparr>"
  let ?s = "\<lparr>logMessages = [], cancelFunc = Some 0, cancelled = {0}, wg = 0, exited = None,
      ctx = 0, sigCh = False, inShutdown = False, panicking = False,
      mainPc = Returned, serverPc = Finished,
      events = [LwipStart (tun2socksStartOptions ?c 3), LwipStop, WgDone, RunWarpReturns]\<rparr>"
  have r: "reachable ?c 3 ?s" by (rule signalled_run)
  have o: "tun2socksStartOptions ?c 3 =
      \<lparr>TunFd = 3, Socks5Server = ''127.0.0.1:8086'', FakeIPRange = ''24.0.0.0/8'',
       MTU = 0, EnableIPv6 = True, AllowLan = True\<rparr>"
    by code_simp
  have "events ?s = [LwipStart (tun2socksStartOptions ?c 3), LwipStop, WgDone, RunWarpReturns]"
    using cleanup_before_return [OF r] by simp
  with r show ?thesis by (simp add: o)
qed

text \<open>
  C9. When the stored cancel function is \<open>nil\<close>, \<open>Shutdown\<close> changes nothing: no context
  is cancelled, the process does not exit, and the state is the one before the call.
\<close>

theorem shutdown_without_session:
  "cancelFunc g = None \<Longrightarrow> Shutdown g = g"
  by (simp add: Shutdown_def)

theorem shutdown_without_session_witness:
  "cancelFunc \<lparr>logMessages = [''a''], cancelFunc = None, cancelled = {}, wg = 0, exited = None\<rparr> = None \<and>
   Shutdown \<lparr>logMessages = [''a''], cancelFunc = None, cancelled = {}, wg = 0, exited = None\<rparr> =
     \<lparr>logMessages = [''a''], cancelFunc = None, cancelled = {}, wg = 0, exited = None\<rparr>"
  using shutdown_without_session
    [of "\<lparr>logMessages = [''a''], cancelFunc = None, cancelled = {}, wg = 0, exited = None\<rparr>"]
  by simp

text \<open>
  C10. For every argument string the tokenizer returns the \<open>nil\<close> error; a character at
  which the expression does not match is skipped without a report, in particular any
  text without \<open>-\<close> in front of the string; and resolution never ends through the
  \<open>log.Fatal\<close> that follows the tokenizer (exit code 1): a rejection comes from the
  flag set only.
\<close>

theorem tokenizer_never_fails:
  "snd (parseCommandLine argStr) = None \<and>
   (matchHere argStr = None \<longrightarrow> parseCommandLine argStr = parseCommandLine (tl argStr)) \<and>
   (CHR ''-'' \<notin> set pre \<longrightarrow> parseCommandLine (pre @ argStr) = parseCommandLine argStr) \<and>
   RunWarp_resolve rttDefined argStr \<noteq> Inl (Exit 1)"
proof -
  have "RunWarp_resolve rttDefined argStr \<noteq> Inl (Exit 1)"
    by (auto simp: RunWarp_resolve_def parseCommandLine_def split: sum.splits
             dest: Parse_exit_codes)
  then show ?thesis
    by (simp add: parseCommandLine_def FindAll_skip FindAll_prefix)
qed

theorem tokenizer_never_fails_witness:
  "matchHere ''- x -v'' = None \<and> CHR ''-'' \<notin> set ''hello '' \<and>
   parseCommandLine ''- x -v'' = ([''-v''], None) \<and>
   parseCommandLine (tl ''- x -v'') = ([''-v''], None) \<and>
   parseCommandLine (''hello '' @ ''- x -v'') = ([''-v''], None)"
proof -
  have h: "matchHere ''- x -v'' = None" by code_simp
  have p: "CHR ''-'' \<notin> set ''hello ''" by simp
  have e: "parseCommandLine (tl ''- x -v'') = ([''-v''], None)" by code_simp
  show ?thesis
    using tokenizer_never_fails [of "''- x -v''" "''hello ''"] h p e by simp
qed

end
